theory Spec2Isabelle
  imports Main "HOL-Library.Stream"
begin

section \<open>AutoChatter: a shallow embedding of the retry policy and the seen-video store\<close>

text \<open>
  The Python program polls a channel, comments on every upload it has not seen before and
  records the upload in a JSON state file. The embedding follows the three modules
  \<^verbatim>\<open>yt_client.py\<close>, \<^verbatim>\<open>state.py\<close> and \<^verbatim>\<open>main.py\<close>. Everything the program obtains from
  outside (answers of the remote API, the random generator, the clock, the success of a
  file write) is read from streams held in a \<open>world\<close> record, one element per use, so that
  every function of the model is a deterministic function of its arguments.
\<close>

subsection \<open>Configuration (\<^verbatim>\<open>config.py\<close>)\<close>

text \<open>
  The settings are module-level constants that the operator may edit; the functions read
  them at each use. They are a record here, and \<open>default_config\<close> holds the values of the
  file. Python integers are unbounded, hence \<open>int\<close>.
\<close>

record config =
  MIN_COMMENT_DELAY :: int
  MAX_COMMENT_DELAY :: int
  SHORTS_ONLY :: bool
  MAX_SHORTS_DURATION :: int
  MAX_RETRIES :: int
  INITIAL_BACKOFF :: int
  MAX_BACKOFF :: int
  CHANNEL_ID :: string

definition default_config :: "string \<Rightarrow> config" where
  "default_config channel =
     \<lparr> MIN_COMMENT_DELAY = 30, MAX_COMMENT_DELAY = 180,
       SHORTS_ONLY = False, MAX_SHORTS_DURATION = 60,
       MAX_RETRIES = 5, INITIAL_BACKOFF = 1, MAX_BACKOFF = 300,
       CHANNEL_ID = channel \<rparr>"

subsection \<open>Exceptions, log records and the outside world\<close>

text \<open>
  The only exception that can leave the modelled functions is the \<^verbatim>\<open>ValueError\<close> of
  \<^verbatim>\<open>time.sleep\<close> on a negative argument and of \<^verbatim>\<open>random.randint\<close> on an empty range; all
  other exceptions are caught where they arise.
\<close>

datatype py_error = ValueError

datatype level = Debug | Info | Warning | Error

datatype message =
    PostedComment string
  | RetryingIn int int int
  | RetriesExhausted
  | HttpErrorPosting string
  | UnexpectedErrorPosting string
  | ErrorFetchingDuration string
  | LoadedState
  | ErrorLoadingState
  | NoStateFile
  | StateSaved
  | ErrorSavingState
  | AlreadyProcessed string
  | ProcessingNewVideo string
  | SkippingNonShort string
  | IsAShort string
  | WaitingBeforeComment int
  | PostingComment string
  | CommentText
  | CommentSucceeded string
  | CommentFailed string
  | ChannelNotConfigured
  | CheckingChannel
  | HttpErrorFetchingUploads
  | ErrorFetchingUploads
  | ChannelNotFound
  | FetchedVideos nat
  | NoVideosFound
  | NoNewVideos
  | ProcessedVideos int

text \<open>
  What one execution of \<^verbatim>\<open>commentThreads().insert(...).execute()\<close> does: it returns, it
  raises \<^verbatim>\<open>HttpError\<close> with a status code, or it raises another exception.
\<close>

datatype outcome = Posted | HttpError int | OtherException

text \<open>
  JSON values as \<^verbatim>\<open>json.load\<close> returns them. Numbers are integers in the model; an object is
  the association list of the parsed dictionary.
\<close>

datatype json =
    JNull
  | JBool bool
  | JNum int
  | JStr string
  | JArr "json list"
  | JObj "(string \<times> json) list"

text \<open>
  The elements of a Python set built from JSON scalars. Python identifies \<^verbatim>\<open>True\<close> with
  \<^verbatim>\<open>1\<close> and \<^verbatim>\<open>False\<close> with \<^verbatim>\<open>0\<close> as set elements, so Booleans are numbers here.
\<close>

datatype pykey = KNone | KNum int | KStr string

text \<open>
  The state file: it does not exist, or it exists and opening or parsing it raises, or it
  holds a JSON document.
\<close>

datatype file_content = Absent | Unreadable | Document json

text \<open>
  What the body of \<^verbatim>\<open>save_state\<close> does to the file: the write succeeds, or it raises and
  leaves the given content behind (\<^verbatim>\<open>open(..., 'w')\<close> may already have truncated the file).
\<close>

datatype write_outcome = WriteOk | WriteFails file_content

text \<open>The answer to \<^verbatim>\<open>videos().list(part="contentDetails", id=...).execute()\<close>.\<close>

datatype videos_response = VideosError | VideosNoItems | VideosDuration string

record video =
  video_id :: string
  title :: string
  published_at :: string

text \<open>The answer to the two requests of \<^verbatim>\<open>get_channel_uploads\<close>, taken together.\<close>

datatype uploads_response =
    UploadsHttpError
  | UploadsOtherError
  | UploadsNoChannel
  | UploadsItems "video list"

text \<open>
  The world: the state file, the log, the arguments of every \<^verbatim>\<open>time.sleep\<close> so far, the
  number of remote insert requests executed, the video ids \<^verbatim>\<open>post_comment\<close> was called
  with (bookkeeping of the model), the streams of future answers, and the order in which
  the interpreter iterates over a set (\<^verbatim>\<open>list(a_set)\<close>), which Python leaves open.
\<close>

record world =
  disk :: file_content
  logs :: "(level \<times> message) list"
  sleeps :: "int list"
  insert_calls :: nat
  post_calls :: "string list"
  insert_outcomes :: "outcome stream"
  videos_responses :: "videos_response stream"
  uploads_responses :: "uploads_response stream"
  randint_draws :: "nat stream"
  write_outcomes :: "write_outcome stream"
  clock :: "string stream"
  set_order :: "pykey set \<Rightarrow> pykey list"

definition logger :: "level \<Rightarrow> message \<Rightarrow> world \<Rightarrow> world" where
  "logger l m w = w\<lparr>logs := logs w @ [(l, m)]\<rparr>"

definition time_sleep :: "int \<Rightarrow> world \<Rightarrow> py_error + world" where
  "time_sleep secs w =
     (if secs < 0 then Inl ValueError else Inr (w\<lparr>sleeps := sleeps w @ [secs]\<rparr>))"

subsection \<open>\<^verbatim>\<open>YouTubeClient.post_comment\<close>\<close>

definition retryable :: "int \<Rightarrow> bool" where
  "retryable status_code = (status_code = 429 \<or> status_code \<ge> 500)"

definition execute_insert :: "world \<Rightarrow> outcome \<times> world" where
  "execute_insert w =
     (shd (insert_outcomes w),
      w\<lparr>insert_outcomes := stl (insert_outcomes w), insert_calls := Suc (insert_calls w)\<rparr>)"

text \<open>
  The \<^verbatim>\<open>while retries < config.MAX_RETRIES\<close> loop. Each iteration executes the request
  once. The \<^verbatim>\<open>time.sleep\<close> stands in the handler of \<^verbatim>\<open>HttpError\<close>, so its \<^verbatim>\<open>ValueError\<close> is
  not caught by the \<^verbatim>\<open>except Exception\<close> of the same \<^verbatim>\<open>try\<close> and leaves the function.
\<close>

function post_comment_loop ::
  "config \<Rightarrow> string \<Rightarrow> int \<Rightarrow> int \<Rightarrow> world \<Rightarrow> py_error + (bool \<times> world)" where
  "post_comment_loop cfg vid retries backoff w =
     (if retries < MAX_RETRIES cfg then
        (case execute_insert w of
           (Posted, w1) \<Rightarrow> Inr (True, logger Info (PostedComment vid) w1)
         | (HttpError status_code, w1) \<Rightarrow>
             if retryable status_code then
               (if retries + 1 < MAX_RETRIES cfg then
                  (case time_sleep backoff
                          (logger Warning (RetryingIn status_code backoff (retries + 1)) w1) of
                     Inl e \<Rightarrow> Inl e
                   | Inr w2 \<Rightarrow>
                       post_comment_loop cfg vid (retries + 1)
                         (min (backoff * 2) (MAX_BACKOFF cfg)) w2)
                else Inr (False, logger Error RetriesExhausted w1))
             else Inr (False, logger Error (HttpErrorPosting vid) w1)
         | (OtherException, w1) \<Rightarrow> Inr (False, logger Error (UnexpectedErrorPosting vid) w1))
      else Inr (False, w))"
  by pat_completeness auto
termination
  by (relation "measure (\<lambda>(cfg, vid, retries, backoff, w). nat (MAX_RETRIES cfg - retries))")
    auto

declare post_comment_loop.simps [simp del]

definition post_comment :: "config \<Rightarrow> string \<Rightarrow> world \<Rightarrow> py_error + (bool \<times> world)" where
  "post_comment cfg vid w =
     post_comment_loop cfg vid 0 (INITIAL_BACKOFF cfg) (w\<lparr>post_calls := post_calls w @ [vid]\<rparr>)"

text \<open>The classes of failure the retry policy distinguishes.\<close>

definition is_transient :: "outcome \<Rightarrow> bool" where
  "is_transient r = (case r of HttpError status_code \<Rightarrow> retryable status_code | _ \<Rightarrow> False)"

definition is_non_transient :: "outcome \<Rightarrow> bool" where
  "is_non_transient r =
     (case r of Posted \<Rightarrow> False | HttpError status_code \<Rightarrow> \<not> retryable status_code
      | OtherException \<Rightarrow> True)"

text \<open>
  The value of \<^verbatim>\<open>backoff\<close> at the \<open>k\<close>-th sleep of one call, as the loop computes it: it
  starts at the initial value and is replaced by \<^verbatim>\<open>min(backoff * 2, MAX_BACKOFF)\<close> after
  each sleep.
\<close>

fun backoff_from :: "int \<Rightarrow> int \<Rightarrow> nat \<Rightarrow> int" where
  "backoff_from c b 0 = b"
| "backoff_from c b (Suc k) = backoff_from c (min (b * 2) c) k"

text \<open>The sleep at attempt index \<open>k\<close> in the words of the specification.\<close>

definition spec_backoff :: "int \<Rightarrow> int \<Rightarrow> nat \<Rightarrow> int" where
  "spec_backoff i c k = min (i * 2 ^ k) c"

subsection \<open>\<^verbatim>\<open>YouTubeClient._parse_duration\<close>, \<^verbatim>\<open>get_video_duration\<close> and \<^verbatim>\<open>is_short\<close>\<close>

text \<open>\<^verbatim>\<open>duration.replace('PT', '')\<close>: every occurrence, found from left to right.\<close>

fun replace_PT :: "string \<Rightarrow> string" where
  "replace_PT (a # b # cs) =
     (if a = CHR ''P'' \<and> b = CHR ''T'' then replace_PT cs else a # replace_PT (b # cs))"
| "replace_PT cs = cs"

definition is_digit :: "char \<Rightarrow> bool" where
  "is_digit ch = (ch \<in> set ''0123456789'')"

text \<open>
  \<^verbatim>\<open>re.search(r'(\d+)U', s)\<close> for a unit letter \<open>U\<close>: the leftmost position at which a
  non-empty run of digits is followed by the letter; the group is the run. The run is
  the longest one, since the letter is no digit. Characters are bytes, so \<^verbatim>\<open>\d\<close> is an
  ASCII digit.
\<close>

definition match_here :: "char \<Rightarrow> string \<Rightarrow> string option" where
  "match_here u s =
     (let ds = takeWhile is_digit s; after = dropWhile is_digit s
      in if ds \<noteq> [] \<and> after \<noteq> [] \<and> hd after = u then Some ds else None)"

fun re_search :: "char \<Rightarrow> string \<Rightarrow> string option" where
  "re_search u [] = None"
| "re_search u (ch # s) =
     (case match_here u (ch # s) of Some ds \<Rightarrow> Some ds | None \<Rightarrow> re_search u s)"

text \<open>\<^verbatim>\<open>int(group)\<close> on a string of decimal digits.\<close>

definition py_int :: "string \<Rightarrow> int" where
  "py_int ds = foldl (\<lambda>n ch. n * 10 + (int (of_char ch) - 48)) 0 ds"

definition parse_duration :: "string \<Rightarrow> int" where
  "parse_duration duration =
     (let d = replace_PT duration;
          hours = (case re_search CHR ''H'' d of Some g \<Rightarrow> py_int g | None \<Rightarrow> 0);
          minutes = (case re_search CHR ''M'' d of Some g \<Rightarrow> py_int g | None \<Rightarrow> 0);
          seconds = (case re_search CHR ''S'' d of Some g \<Rightarrow> py_int g | None \<Rightarrow> 0)
      in hours * 3600 + minutes * 60 + seconds)"

text \<open>
  \<^verbatim>\<open>get_video_duration\<close>: one request; an exception anywhere in the \<^verbatim>\<open>try\<close> is logged and
  gives \<^verbatim>\<open>None\<close>, an answer without items gives \<^verbatim>\<open>None\<close> silently.
\<close>

definition get_video_duration :: "string \<Rightarrow> world \<Rightarrow> int option \<times> world" where
  "get_video_duration vid w =
     (let w1 = w\<lparr>videos_responses := stl (videos_responses w)\<rparr> in
      case shd (videos_responses w) of
        VideosError \<Rightarrow> (None, logger Error (ErrorFetchingDuration vid) w1)
      | VideosNoItems \<Rightarrow> (None, w1)
      | VideosDuration duration_str \<Rightarrow> (Some (parse_duration duration_str), w1))"

definition is_short :: "config \<Rightarrow> string \<Rightarrow> world \<Rightarrow> bool \<times> world" where
  "is_short cfg vid w =
     (case get_video_duration vid w of
        (None, w1) \<Rightarrow> (False, w1)
      | (Some duration, w1) \<Rightarrow> (duration \<le> MAX_SHORTS_DURATION cfg, w1))"

text \<open>
  \<^verbatim>\<open>get_channel_uploads\<close>: every failure is logged and gives the empty list.
\<close>

definition get_channel_uploads :: "world \<Rightarrow> video list \<times> world" where
  "get_channel_uploads w =
     (let w1 = w\<lparr>uploads_responses := stl (uploads_responses w)\<rparr> in
      case shd (uploads_responses w) of
        UploadsHttpError \<Rightarrow> ([], logger Error HttpErrorFetchingUploads w1)
      | UploadsOtherError \<Rightarrow> ([], logger Error ErrorFetchingUploads w1)
      | UploadsNoChannel \<Rightarrow> ([], logger Warning ChannelNotFound w1)
      | UploadsItems videos \<Rightarrow> (videos, logger Info (FetchedVideos (length videos)) w1))"

subsection \<open>\<^verbatim>\<open>StateManager\<close> (\<^verbatim>\<open>state.py\<close>)\<close>

record state_manager =
  last_seen_videos :: "pykey set"
  last_check_time :: json

text \<open>
  \<^verbatim>\<open>set(x)\<close> on a loaded JSON value; \<open>None\<close> stands for the \<^verbatim>\<open>TypeError\<close> of a value that
  cannot be iterated or of an element that cannot be hashed. A string gives its
  characters, a dictionary its keys.
\<close>

fun key_of :: "json \<Rightarrow> pykey option" where
  "key_of JNull = Some KNone"
| "key_of (JBool b) = Some (KNum (if b then 1 else 0))"
| "key_of (JNum n) = Some (KNum n)"
| "key_of (JStr s) = Some (KStr s)"
| "key_of (JArr xs) = None"
| "key_of (JObj kvs) = None"

fun json_of_key :: "pykey \<Rightarrow> json" where
  "json_of_key KNone = JNull"
| "json_of_key (KNum n) = JNum n"
| "json_of_key (KStr s) = JStr s"

definition py_set :: "json \<Rightarrow> pykey set option" where
  "py_set x =
     (case x of
        JArr xs \<Rightarrow>
          if list_all (\<lambda>j. key_of j \<noteq> None) xs then Some (set (map (\<lambda>j. the (key_of j)) xs))
          else None
      | JStr s \<Rightarrow> Some (set (map (\<lambda>ch. KStr [ch]) s))
      | JObj kvs \<Rightarrow> Some (set (map (\<lambda>kv. KStr (fst kv)) kvs))
      | _ \<Rightarrow> None)"

text \<open>\<^verbatim>\<open>data.get(key, default)\<close> on a parsed JSON object.\<close>

definition dict_get :: "(string \<times> json) list \<Rightarrow> string \<Rightarrow> json \<Rightarrow> json" where
  "dict_get kvs k dflt = (case map_of kvs k of Some v \<Rightarrow> v | None \<Rightarrow> dflt)"

definition empty_state :: state_manager where
  "empty_state = \<lparr> last_seen_videos = {}, last_check_time = JNull \<rparr>"

text \<open>
  \<^verbatim>\<open>load_state\<close>. The body of the \<^verbatim>\<open>try\<close> raises when the file cannot be opened or parsed,
  when the document is no object (\<^verbatim>\<open>data.get\<close>), or when \<^verbatim>\<open>set(...)\<close> raises; the handler
  logs and resets both fields.
\<close>

definition load_state :: "state_manager \<Rightarrow> world \<Rightarrow> state_manager \<times> world" where
  "load_state st w =
     (case disk w of
        Absent \<Rightarrow> (st, logger Info NoStateFile w)
      | Unreadable \<Rightarrow> (empty_state, logger Error ErrorLoadingState w)
      | Document data \<Rightarrow>
          (case data of
             JObj kvs \<Rightarrow>
               (case py_set (dict_get kvs ''last_seen_videos'' (JArr [])) of
                  Some seen \<Rightarrow>
                    (\<lparr> last_seen_videos = seen,
                       last_check_time = dict_get kvs ''last_check_time'' JNull \<rparr>,
                     logger Info LoadedState w)
                | None \<Rightarrow> (empty_state, logger Error ErrorLoadingState w))
           | _ \<Rightarrow> (empty_state, logger Error ErrorLoadingState w)))"

text \<open>\<^verbatim>\<open>StateManager.__init__\<close>: both fields empty, then \<^verbatim>\<open>load_state\<close>.\<close>

definition new_state_manager :: "world \<Rightarrow> state_manager \<times> world" where
  "new_state_manager w = load_state empty_state w"

text \<open>
  The body of the \<^verbatim>\<open>try\<close> in \<^verbatim>\<open>save_state\<close>: build the document and write it. The result
  says whether an exception was raised.
\<close>

definition state_document :: "state_manager \<Rightarrow> world \<Rightarrow> json" where
  "state_document st w =
     JObj [(''last_seen_videos'', JArr (map json_of_key (set_order w (last_seen_videos st)))),
           (''last_check_time'', last_check_time st)]"

definition write_state_file :: "state_manager \<Rightarrow> world \<Rightarrow> bool \<times> world" where
  "write_state_file st w =
     (let w1 = w\<lparr>write_outcomes := stl (write_outcomes w)\<rparr> in
      case shd (write_outcomes w) of
        WriteOk \<Rightarrow> (False, w1\<lparr>disk := Document (state_document st w)\<rparr>)
      | WriteFails left_behind \<Rightarrow> (True, w1\<lparr>disk := left_behind\<rparr>))"

definition save_state :: "state_manager \<Rightarrow> world \<Rightarrow> world" where
  "save_state st w =
     (case write_state_file st w of
        (False, w1) \<Rightarrow> logger Info StateSaved w1
      | (True, w1) \<Rightarrow> logger Error ErrorSavingState w1)"

definition is_video_seen :: "state_manager \<Rightarrow> string \<Rightarrow> bool" where
  "is_video_seen st vid = (KStr vid \<in> last_seen_videos st)"

definition utcnow_isoformat :: "world \<Rightarrow> string \<times> world" where
  "utcnow_isoformat w = (shd (clock w), w\<lparr>clock := stl (clock w)\<rparr>)"

definition mark_video_seen :: "state_manager \<Rightarrow> world \<Rightarrow> string \<Rightarrow> state_manager \<times> world" where
  "mark_video_seen st w vid =
     (case utcnow_isoformat w of
        (now, w1) \<Rightarrow>
          (let st1 = st\<lparr>last_seen_videos := insert (KStr vid) (last_seen_videos st),
                        last_check_time := JStr now\<rparr>
           in (st1, save_state st1 w1)))"

definition get_last_check_time :: "state_manager \<Rightarrow> json" where
  "get_last_check_time st = last_check_time st"

text \<open>The operations a caller can apply to a constructed store, and a run of them.\<close>

datatype store_op = IsSeen string | MarkSeen string | Save | GetLastCheckTime

fun apply_store_op :: "store_op \<Rightarrow> state_manager \<times> world \<Rightarrow> state_manager \<times> world" where
  "apply_store_op (IsSeen vid) (st, w) = (st, w)"
| "apply_store_op (MarkSeen vid) (st, w) = mark_video_seen st w vid"
| "apply_store_op Save (st, w) = (st, save_state st w)"
| "apply_store_op GetLastCheckTime (st, w) = (st, w)"

fun run_store_ops :: "store_op list \<Rightarrow> state_manager \<times> world \<Rightarrow> state_manager \<times> world" where
  "run_store_ops [] sw = sw"
| "run_store_ops (op # ops) sw = run_store_ops ops (apply_store_op op sw)"

text \<open>
  A state file that makes \<^verbatim>\<open>load_state\<close> fail: it exists but cannot be opened or parsed,
  or the document is not an object, or its \<^verbatim>\<open>last_seen_videos\<close> cannot be made a set.
\<close>

definition malformed :: "file_content \<Rightarrow> bool" where
  "malformed content =
     (case content of
        Absent \<Rightarrow> False
      | Unreadable \<Rightarrow> True
      | Document (JObj kvs) \<Rightarrow> py_set (dict_get kvs ''last_seen_videos'' (JArr [])) = None
      | Document _ \<Rightarrow> True)"

subsection \<open>The poll cycle (\<^verbatim>\<open>main.py\<close>)\<close>

text \<open>
  \<^verbatim>\<open>random.randint(a, b)\<close>: \<^verbatim>\<open>ValueError\<close> on an empty range, else a value of the range
  picked by the next draw.
\<close>

definition randint :: "int \<Rightarrow> int \<Rightarrow> world \<Rightarrow> py_error + (int \<times> world)" where
  "randint a b w =
     (if b < a then Inl ValueError
      else Inr (a + int (shd (randint_draws w)) mod (b - a + 1),
                w\<lparr>randint_draws := stl (randint_draws w)\<rparr>))"

text \<open>
  The part of \<^verbatim>\<open>process_video\<close> after the Shorts filter: the random delay, the post and
  the final \<^verbatim>\<open>mark_video_seen\<close>. The comment text (\<^verbatim>\<open>templates.py\<close>) is chosen between
  the sleep and the post; it decides nothing that follows and is left out.
\<close>

definition comment_and_mark ::
  "config \<Rightarrow> state_manager \<Rightarrow> world \<Rightarrow> video \<Rightarrow> py_error + (state_manager \<times> world)" where
  "comment_and_mark cfg st w v =
     (case randint (MIN_COMMENT_DELAY cfg) (MAX_COMMENT_DELAY cfg) w of
        Inl e \<Rightarrow> Inl e
      | Inr (delay, w1) \<Rightarrow>
          (case time_sleep delay (logger Info (WaitingBeforeComment delay) w1) of
             Inl e \<Rightarrow> Inl e
           | Inr w2 \<Rightarrow>
               (case post_comment cfg (video_id v)
                       (logger Debug CommentText (logger Info (PostingComment (video_id v)) w2)) of
                  Inl e \<Rightarrow> Inl e
                | Inr (success, w3) \<Rightarrow>
                    Inr (mark_video_seen st
                           (if success then logger Info (CommentSucceeded (title v)) w3
                            else logger Error (CommentFailed (title v)) w3)
                           (video_id v)))))"

definition process_video ::
  "config \<Rightarrow> state_manager \<Rightarrow> world \<Rightarrow> video \<Rightarrow> py_error + (state_manager \<times> world)" where
  "process_video cfg st w v =
     (if is_video_seen st (video_id v) then
        Inr (st, logger Debug (AlreadyProcessed (video_id v)) w)
      else
        (let w1 = logger Info (ProcessingNewVideo (video_id v)) w in
         if SHORTS_ONLY cfg then
           (case is_short cfg (video_id v) w1 of
              (short, w2) \<Rightarrow>
                if \<not> short then
                  Inr (mark_video_seen st (logger Info (SkippingNonShort (video_id v)) w2)
                         (video_id v))
                else comment_and_mark cfg st (logger Info (IsAShort (video_id v)) w2) v)
         else comment_and_mark cfg st w1 v))"

text \<open>The \<^verbatim>\<open>for video in videos\<close> loop of \<^verbatim>\<open>check_for_new_videos\<close>, with its counter.\<close>

fun process_videos ::
  "config \<Rightarrow> video list \<Rightarrow> int \<Rightarrow> state_manager \<Rightarrow> world \<Rightarrow>
     py_error + (int \<times> state_manager \<times> world)" where
  "process_videos cfg [] new_videos_count st w = Inr (new_videos_count, st, w)"
| "process_videos cfg (v # videos) new_videos_count st w =
     (if \<not> is_video_seen st (video_id v) then
        (case process_video cfg st w v of
           Inl e \<Rightarrow> Inl e
         | Inr (st1, w1) \<Rightarrow> process_videos cfg videos (new_videos_count + 1) st1 w1)
      else process_videos cfg videos new_videos_count st w)"

definition check_for_new_videos ::
  "config \<Rightarrow> state_manager \<Rightarrow> world \<Rightarrow> py_error + (state_manager \<times> world)" where
  "check_for_new_videos cfg st w =
     (if CHANNEL_ID cfg = [] then Inr (st, logger Error ChannelNotConfigured w)
      else
        (case get_channel_uploads (logger Info CheckingChannel w) of
           (videos, w1) \<Rightarrow>
             if videos = [] then Inr (st, logger Info NoVideosFound w1)
             else
               (case process_videos cfg videos 0 st w1 of
                  Inl e \<Rightarrow> Inl e
                | Inr (new_videos_count, st1, w2) \<Rightarrow>
                    Inr (st1,
                         if new_videos_count = 0 then logger Info NoNewVideos w2
                         else logger Info (ProcessedVideos new_videos_count) w2))))"

subsection \<open>Conditions on a poll cycle\<close>

text \<open>
  A duration answer that lets a video pass the Shorts filter, and a world in which every
  duration answer does so whenever the filter is on.
\<close>

definition short_answer :: "config \<Rightarrow> videos_response \<Rightarrow> bool" where
  "short_answer cfg r =
     (case r of VideosDuration d \<Rightarrow> parse_duration d \<le> MAX_SHORTS_DURATION cfg | _ \<Rightarrow> False)"

definition passes_filter :: "config \<Rightarrow> world \<Rightarrow> bool" where
  "passes_filter cfg w =
     (SHORTS_ONLY cfg \<longrightarrow> (\<forall>r \<in> sset (videos_responses w). short_answer cfg r))"

text \<open>
  Settings with which neither \<^verbatim>\<open>random.randint\<close> nor \<^verbatim>\<open>time.sleep\<close> raises: a non-empty
  range of non-negative delays, and non-negative backoffs.
\<close>

definition sleeps_legal :: "config \<Rightarrow> bool" where
  "sleeps_legal cfg =
     (0 \<le> MIN_COMMENT_DELAY cfg \<and> MIN_COMMENT_DELAY cfg \<le> MAX_COMMENT_DELAY cfg \<and>
      0 \<le> INITIAL_BACKOFF cfg \<and> 0 \<le> MAX_BACKOFF cfg)"

text \<open>The videos of a fetched list that the store has not seen.\<close>

definition unseen :: "state_manager \<Rightarrow> video list \<Rightarrow> video list" where
  "unseen st videos = filter (\<lambda>v. \<not> is_video_seen st (video_id v)) videos"

subsection \<open>Duration tokens\<close>

text \<open>
  The compact form the specification speaks of: \<^verbatim>\<open>PT\<close>, then the hours followed by
  \<^verbatim>\<open>H\<close>, the minutes followed by \<^verbatim>\<open>M\<close> and the seconds followed by \<^verbatim>\<open>S\<close>, each part
  optional, each number in decimal notation.
\<close>

definition digit_char :: "nat \<Rightarrow> char" where
  "digit_char d = ''0123456789'' ! d"

fun decimal :: "nat \<Rightarrow> string" where
  "decimal n = (if n < 10 then [digit_char n] else decimal (n div 10) @ [digit_char (n mod 10)])"

declare decimal.simps [simp del]

definition unit_part :: "nat option \<Rightarrow> char \<Rightarrow> string" where
  "unit_part x u = (case x of None \<Rightarrow> [] | Some n \<Rightarrow> decimal n @ [u])"

definition compact_token :: "nat option \<Rightarrow> nat option \<Rightarrow> nat option \<Rightarrow> string" where
  "compact_token h m s =
     ''PT'' @ unit_part h CHR ''H'' @ unit_part m CHR ''M'' @ unit_part s CHR ''S''"

definition unit_value :: "nat option \<Rightarrow> int" where
  "unit_value x = (case x of None \<Rightarrow> 0 | Some n \<Rightarrow> int n)"

subsection \<open>Concrete inputs\<close>

text \<open>
  A world in which nothing has happened yet: no state file, and the given answers to the
  insert requests. The other streams are constant.
\<close>

definition fresh_world :: "outcome stream \<Rightarrow> world" where
  "fresh_world answers =
     \<lparr> disk = Absent, logs = [], sleeps = [], insert_calls = 0, post_calls = [],
       insert_outcomes = answers, videos_responses = sconst VideosNoItems,
       uploads_responses = sconst UploadsNoChannel, randint_draws = sconst 0,
       write_outcomes = sconst WriteOk, clock = sconst ''2024-01-01T00:00:00'',
       set_order = (\<lambda>keys. []) \<rparr>"

text \<open>What a call of \<^verbatim>\<open>post_comment\<close> did: its result, its sleeps and its requests.\<close>

definition summary :: "py_error + bool \<times> world \<Rightarrow> (bool \<times> int list \<times> nat) option" where
  "summary r = (case r of Inl e \<Rightarrow> None | Inr (ok, w) \<Rightarrow> Some (ok, sleeps w, insert_calls w))"

text \<open>What a cycle left behind: the seen set and the calls of \<^verbatim>\<open>post_comment\<close>; the state file.\<close>

definition seen_and_posts ::
  "py_error + state_manager \<times> world \<Rightarrow> (pykey set \<times> string list) option" where
  "seen_and_posts r =
     (case r of Inl e \<Rightarrow> None | Inr (st, w) \<Rightarrow> Some (last_seen_videos st, post_calls w))"

definition state_file_after :: "py_error + state_manager \<times> world \<Rightarrow> file_content option" where
  "state_file_after r = (case r of Inl e \<Rightarrow> None | Inr (st, w) \<Rightarrow> Some (disk w))"

definition upload :: "string \<Rightarrow> video" where
  "upload vid = \<lparr> video_id = vid, title = ''a title'', published_at = ''2024-01-01T00:00:00Z'' \<rparr>"

section \<open>The retry policy of \<^verbatim>\<open>post_comment\<close>\<close>

lemmas post_comment_eval =
  post_comment_def post_comment_loop.simps execute_insert_def retryable_def logger_def
  time_sleep_def fresh_world_def default_config_def summary_def

lemma backoff_step:
  fixes b c :: int
  assumes "0 \<le> b" "b \<le> c"
  shows "min (min (b * 2) c * 2 ^ k) c = min (b * 2 ^ Suc k) c"
proof (cases "b * 2 \<le> c")
  case True
  then show ?thesis by (simp add: mult.assoc)
next
  case False
  have p: "(1::int) \<le> 2 ^ k" by simp
  from assms have c0: "0 \<le> c" by simp
  have "c * 1 \<le> c * 2 ^ k" using c0 p by (rule mult_left_mono[rotated])
  then have 1: "c \<le> c * 2 ^ k" by simp
  from False have "c \<le> b * 2" by simp
  then have "c * 2 ^ k \<le> (b * 2) * 2 ^ k" by (rule mult_right_mono) simp
  also have "(b * 2) * 2 ^ k = b * 2 ^ Suc k" by simp
  finally have 2: "c \<le> b * 2 ^ Suc k" using 1 by linarith
  from False 1 2 show ?thesis by (simp add: min_def)
qed

lemma backoff_from_spec:
  "0 \<le> b \<Longrightarrow> b \<le> c \<Longrightarrow> backoff_from c b k = spec_backoff b c k"
proof (induction k arbitrary: b)
  case 0
  then show ?case by (simp add: spec_backoff_def)
next
  case (Suc k)
  have "backoff_from c b (Suc k) = backoff_from c (min (b * 2) c) k" by simp
  also have "\<dots> = spec_backoff (min (b * 2) c) c k"
    using Suc.prems by (intro Suc.IH) simp_all
  also have "\<dots> = spec_backoff b c (Suc k)"
    unfolding spec_backoff_def using Suc.prems by (rule backoff_step)
  finally show ?case .
qed

lemma backoff_from_nonneg:
  "0 \<le> b \<Longrightarrow> 0 \<le> c \<Longrightarrow> 0 \<le> backoff_from c b k"
  by (induction k arbitrary: b) simp_all

lemma backoff_from_upt:
  "map (backoff_from c b) [0..<Suc n] = b # map (backoff_from c (min (b * 2) c)) [0..<n]"
proof -
  have "map (backoff_from c b) [0..<Suc n] = backoff_from c b 0 # map (\<lambda>k. backoff_from c b (Suc k)) [0..<n]"
    by (simp only: upt_conv_Cons[of 0 "Suc n"] map_Suc_upt[symmetric] list.map map_map comp_def zero_less_Suc if_True)
  then show ?thesis by simp
qed

lemma post_comment_loop_transient_prefix:
  assumes "list_all is_transient fs" "insert_outcomes w = fs @- s"
    "r + int (length fs) < MAX_RETRIES cfg"
    "\<forall>k<length fs. 0 \<le> backoff_from (MAX_BACKOFF cfg) b k"
  shows "\<exists>lg. post_comment_loop cfg vid r b w =
      post_comment_loop cfg vid (r + int (length fs))
        (backoff_from (MAX_BACKOFF cfg) b (length fs))
        (w\<lparr>logs := logs w @ lg,
           sleeps := sleeps w @ map (backoff_from (MAX_BACKOFF cfg) b) [0..<length fs],
           insert_calls := insert_calls w + length fs,
           insert_outcomes := s\<rparr>)"
  using assms
proof (induction fs arbitrary: r b w)
  case Nil
  have "w = w\<lparr>logs := logs w @ [], sleeps := sleeps w, insert_calls := insert_calls w, insert_outcomes := s\<rparr>"
    using Nil.prems(2) by simp
  then show ?case
    by (intro exI[of _ "[]"]) simp
next
  case (Cons f fs)
  then obtain st where f: "f = HttpError st" "retryable st"
    by (cases f) (auto simp: is_transient_def)
  let ?c = "MAX_BACKOFF cfg" and ?R = "MAX_RETRIES cfg"
  define w2 where "w2 = w\<lparr>logs := logs w @ [(Warning, RetryingIn st b (r + 1))],
      sleeps := sleeps w @ [b], insert_calls := Suc (insert_calls w), insert_outcomes := fs @- s\<rparr>"
  define b' where "b' = min (b * 2) ?c"
  from Cons.prems(4) have b0: "0 \<le> b" by fastforce
  have "(w\<lparr>insert_outcomes := fs @- s, insert_calls := Suc (insert_calls w),
              logs := logs w @ [(Warning, RetryingIn st b (r + 1))],
              sleeps := sleeps w @ [b]\<rparr>) = w2"
    by (cases w) (simp add: w2_def)
  then have step: "post_comment_loop cfg vid r b w = post_comment_loop cfg vid (r + 1) b' w2"
    using Cons.prems(2,3) f b0
    by (subst post_comment_loop.simps)
      (simp add: execute_insert_def logger_def time_sleep_def b'_def)
  have tr: "list_all is_transient fs" using Cons.prems(1) by simp
  have io: "insert_outcomes w2 = fs @- s" by (simp add: w2_def)
  have lt: "r + 1 + int (length fs) < ?R" using Cons.prems(3) by simp
  have nn: "\<forall>k<length fs. 0 \<le> backoff_from ?c b' k"
  proof (intro allI impI)
    fix k assume "k < length fs"
    then have "Suc k < length (f # fs)" by simp
    with Cons.prems(4) have "0 \<le> backoff_from ?c b (Suc k)" by blast
    then show "0 \<le> backoff_from ?c b' k" by (simp add: b'_def)
  qed
  from Cons.IH[OF tr io lt nn] obtain lg where
    run: "post_comment_loop cfg vid (r + 1) b' w2 =
      post_comment_loop cfg vid (r + 1 + int (length fs)) (backoff_from ?c b' (length fs))
        (w2\<lparr>logs := logs w2 @ lg,
           sleeps := sleeps w2 @ map (backoff_from ?c b') [0..<length fs],
           insert_calls := insert_calls w2 + length fs,
           insert_outcomes := s\<rparr>)"
    by blast
  show ?case
    unfolding step run
    by (intro exI[of _ "(Warning, RetryingIn st b (r + 1)) # lg"], cases w)
      (simp add: w2_def b'_def backoff_from_upt add.assoc del: upt_Suc)
qed


lemma post_comment_loop_posted:
  assumes "r < MAX_RETRIES cfg" "insert_outcomes w = Posted ## rest"
  shows "post_comment_loop cfg vid r b w =
     Inr (True, w\<lparr>logs := logs w @ [(Info, PostedComment vid)],
                   insert_calls := Suc (insert_calls w), insert_outcomes := rest\<rparr>)"
  using assms
  by (subst post_comment_loop.simps, cases w) (simp add: execute_insert_def logger_def)

lemma post_comment_loop_exhausted:
  assumes "r < MAX_RETRIES cfg" "\<not> r + 1 < MAX_RETRIES cfg"
    "insert_outcomes w = f ## rest" "is_transient f"
  shows "post_comment_loop cfg vid r b w =
     Inr (False, w\<lparr>logs := logs w @ [(Error, RetriesExhausted)],
                    insert_calls := Suc (insert_calls w), insert_outcomes := rest\<rparr>)"
proof -
  from assms(4) obtain st where "f = HttpError st" "retryable st"
    by (cases f) (auto simp: is_transient_def)
  with assms(1-3) show ?thesis
    by (subst post_comment_loop.simps, cases w) (simp add: execute_insert_def logger_def)
qed

lemma post_comment_loop_non_transient:
  assumes "r < MAX_RETRIES cfg" "insert_outcomes w = f ## rest" "is_non_transient f"
  shows "\<exists>m. post_comment_loop cfg vid r b w =
     Inr (False, w\<lparr>logs := logs w @ [(Error, m)],
                    insert_calls := Suc (insert_calls w), insert_outcomes := rest\<rparr>)"
proof (cases f)
  case Posted
  with assms(3) show ?thesis by (simp add: is_non_transient_def)
next
  case (HttpError st)
  with assms have "post_comment_loop cfg vid r b w =
     Inr (False, w\<lparr>logs := logs w @ [(Error, HttpErrorPosting vid)],
                    insert_calls := Suc (insert_calls w), insert_outcomes := rest\<rparr>)"
    by (subst post_comment_loop.simps, cases w)
      (simp add: execute_insert_def logger_def is_non_transient_def)
  then show ?thesis by blast
next
  case OtherException
  with assms have "post_comment_loop cfg vid r b w =
     Inr (False, w\<lparr>logs := logs w @ [(Error, UnexpectedErrorPosting vid)],
                    insert_calls := Suc (insert_calls w), insert_outcomes := rest\<rparr>)"
    by (subst post_comment_loop.simps, cases w)
      (simp add: execute_insert_def logger_def)
  then show ?thesis by blast
qed

text \<open>
  Claim C4. Within one call of \<^verbatim>\<open>post_comment\<close>, let the remote answer any number of
  transient failures \<open>fs\<close> (fewer than \<^verbatim>\<open>MAX_RETRIES\<close>, each followed by a legal sleep) and
  then fail non-transiently: a status other than 429 and below 500, or another exception.
  The call returns \<^verbatim>\<open>False\<close> at once: the sleeps are exactly those after the transient
  failures before it, the failing request is the last one executed, and the rest of the
  answers is left unread.
\<close>

theorem post_comment_non_transient:
  assumes "list_all is_transient fs" "is_non_transient f"
    "insert_outcomes w = fs @- (f ## rest)"
    "int (length fs) < MAX_RETRIES cfg"
    "\<forall>k<length fs. 0 \<le> backoff_from (MAX_BACKOFF cfg) (INITIAL_BACKOFF cfg) k"
  shows "\<exists>lg. post_comment cfg vid w =
     Inr (False, w\<lparr>post_calls := post_calls w @ [vid],
                    logs := logs w @ lg,
                    sleeps := sleeps w @
                      map (backoff_from (MAX_BACKOFF cfg) (INITIAL_BACKOFF cfg)) [0..<length fs],
                    insert_calls := insert_calls w + length fs + 1,
                    insert_outcomes := rest\<rparr>)"
proof -
  let ?w0 = "w\<lparr>post_calls := post_calls w @ [vid]\<rparr>"
  let ?c = "MAX_BACKOFF cfg" and ?i = "INITIAL_BACKOFF cfg"
  have io: "insert_outcomes ?w0 = fs @- (f ## rest)" using assms(3) by simp
  have lt: "0 + int (length fs) < MAX_RETRIES cfg" using assms(4) by simp
  from post_comment_loop_transient_prefix[OF assms(1) io lt assms(5), of vid] obtain lg where
    run: "post_comment_loop cfg vid 0 ?i ?w0 =
      post_comment_loop cfg vid (0 + int (length fs)) (backoff_from ?c ?i (length fs))
        (?w0\<lparr>logs := logs ?w0 @ lg,
           sleeps := sleeps ?w0 @ map (backoff_from ?c ?i) [0..<length fs],
           insert_calls := insert_calls ?w0 + length fs,
           insert_outcomes := f ## rest\<rparr>)" (is "_ = post_comment_loop _ _ _ _ ?w1")
    by blast
  have io1: "insert_outcomes ?w1 = f ## rest" by simp
  from post_comment_loop_non_transient[OF lt io1 assms(2), of vid "backoff_from ?c ?i (length fs)"]
  obtain m where fin: "post_comment_loop cfg vid (0 + int (length fs)) (backoff_from ?c ?i (length fs)) ?w1 =
     Inr (False, ?w1\<lparr>logs := logs ?w1 @ [(Error, m)],
                    insert_calls := Suc (insert_calls ?w1), insert_outcomes := rest\<rparr>)"
    by blast
  show ?thesis
    unfolding post_comment_def run fin
    by (intro exI[of _ "lg @ [(Error, m)]"], cases w) simp
qed

text \<open>
  Claim C10. With \<^verbatim>\<open>MAX_RETRIES\<close> zero or negative the loop body never runs:
  \<^verbatim>\<open>post_comment\<close> returns \<^verbatim>\<open>False\<close>, and the world is unchanged but for the record of the
  call itself: no request, no sleep, no log line.
\<close>

theorem post_comment_no_retries:
  assumes "MAX_RETRIES cfg \<le> 0"
  shows "post_comment cfg vid w = Inr (False, w\<lparr>post_calls := post_calls w @ [vid]\<rparr>)"
  using assms unfolding post_comment_def
  by (subst post_comment_loop.simps) simp

text \<open>
  Claim C1, amended. Let \<^verbatim>\<open>MAX_RETRIES\<close> be \<open>R \<ge> 1\<close> and let the initial backoff \<open>i\<close> and the
  cap \<open>c\<close> satisfy \<open>0 \<le> i \<le> c\<close>. Let the remote answer \<open>N\<close> transient failures and then a
  success. If \<open>N < R\<close>, \<^verbatim>\<open>post_comment\<close> returns \<^verbatim>\<open>True\<close> after exactly \<open>N\<close> sleeps, the
  \<open>k\<close>-th of \<open>min (i * 2 ^ k) c\<close> seconds, and \<open>N + 1\<close> requests. If \<open>N \<ge> R\<close>, it returns
  \<^verbatim>\<open>False\<close> after exactly \<open>R - 1\<close> sleeps of the same lengths and exactly \<open>R\<close> requests, and
  its last log line reports the exhaustion.
\<close>

theorem post_comment_retry_policy:
  assumes "1 \<le> MAX_RETRIES cfg"
    "0 \<le> INITIAL_BACKOFF cfg" "INITIAL_BACKOFF cfg \<le> MAX_BACKOFF cfg"
    "list_all is_transient fs" "insert_outcomes w = fs @- (Posted ## rest)"
  shows "\<exists>w'. post_comment cfg vid w = Inr (int (length fs) < MAX_RETRIES cfg, w') \<and>
     (if int (length fs) < MAX_RETRIES cfg
      then sleeps w' = sleeps w @
             map (spec_backoff (INITIAL_BACKOFF cfg) (MAX_BACKOFF cfg)) [0..<length fs] \<and>
           insert_calls w' = insert_calls w + length fs + 1 \<and>
           insert_outcomes w' = rest
      else sleeps w' = sleeps w @
             map (spec_backoff (INITIAL_BACKOFF cfg) (MAX_BACKOFF cfg))
               [0..<nat (MAX_RETRIES cfg) - 1] \<and>
           insert_calls w' = insert_calls w + nat (MAX_RETRIES cfg) \<and>
           last (logs w') = (Error, RetriesExhausted))"
proof -
  let ?w0 = "w\<lparr>post_calls := post_calls w @ [vid]\<rparr>"
  let ?c = "MAX_BACKOFF cfg" and ?i = "INITIAL_BACKOFF cfg" and ?R = "MAX_RETRIES cfg"
  have sp: "backoff_from ?c ?i = spec_backoff ?i ?c"
    using assms(2,3) by (intro ext backoff_from_spec)
  have nn: "\<forall>k<n. 0 \<le> backoff_from ?c ?i k" for n
    using assms(2,3) by (simp add: backoff_from_nonneg)
  show ?thesis
  proof (cases "int (length fs) < ?R")
    case True
    have io: "insert_outcomes ?w0 = fs @- (Posted ## rest)" using assms(5) by simp
    have lt: "0 + int (length fs) < ?R" using True by simp
    from post_comment_loop_transient_prefix[OF assms(4) io lt nn, of vid] obtain lg where
      run: "post_comment_loop cfg vid 0 ?i ?w0 =
        post_comment_loop cfg vid (0 + int (length fs)) (backoff_from ?c ?i (length fs))
          (?w0\<lparr>logs := logs ?w0 @ lg,
             sleeps := sleeps ?w0 @ map (backoff_from ?c ?i) [0..<length fs],
             insert_calls := insert_calls ?w0 + length fs,
             insert_outcomes := Posted ## rest\<rparr>)" (is "_ = post_comment_loop _ _ _ _ ?w1")
      by blast
    have io1: "insert_outcomes ?w1 = Posted ## rest" by simp
    show ?thesis
      unfolding post_comment_def run post_comment_loop_posted[OF lt io1]
      using True by (simp add: sp)
  next
    case False
    define m where "m = nat ?R - 1"
    have m: "m < length fs" "0 + int (length (take m fs)) < ?R" "\<not> 0 + int (length (take m fs)) + 1 < ?R"
      using False assms(1) by (simp_all add: m_def min_def)
    have lm: "length (take m fs) = m" using m(1) by simp
    have split: "fs = take m fs @ fs ! m # drop (Suc m) fs"
      using m(1) by (rule id_take_nth_drop)
    have io: "insert_outcomes ?w0 = take m fs @- (fs ! m ## (drop (Suc m) fs @- (Posted ## rest)))"
      using assms(5) by (subst (asm) split) simp
    have tr: "list_all is_transient (take m fs)" "is_transient (fs ! m)"
      using assms(4) m(1) by (auto simp: list_all_iff dest: in_set_takeD)
    from post_comment_loop_transient_prefix[OF tr(1) io m(2) nn, of vid] obtain lg where
      run: "post_comment_loop cfg vid 0 ?i ?w0 =
        post_comment_loop cfg vid (0 + int (length (take m fs))) (backoff_from ?c ?i (length (take m fs)))
          (?w0\<lparr>logs := logs ?w0 @ lg,
             sleeps := sleeps ?w0 @ map (backoff_from ?c ?i) [0..<length (take m fs)],
             insert_calls := insert_calls ?w0 + length (take m fs),
             insert_outcomes := fs ! m ## (drop (Suc m) fs @- (Posted ## rest))\<rparr>)"
        (is "_ = post_comment_loop _ _ _ _ ?w1")
      by blast
    have io1: "insert_outcomes ?w1 = fs ! m ## (drop (Suc m) fs @- (Posted ## rest))" by simp
    have "Suc m = nat ?R" using assms(1) by (simp add: m_def)
    then show ?thesis
      unfolding post_comment_def run post_comment_loop_exhausted[OF m(2,3) io1 tr(2)]
      using False by (simp add: sp lm m_def)
  qed
qed


theorem post_comment_retry_policy_witness:
  "summary (post_comment (default_config ''UC'') ''v''
      (fresh_world ([HttpError 503, HttpError 429] @- (Posted ## sconst OtherException))))
     = Some (True, [1, 2], 3)
   \<and> summary (post_comment ((default_config ''UC'')\<lparr>MAX_RETRIES := 2\<rparr>) ''v''
      (fresh_world ([HttpError 503, HttpError 429] @- (Posted ## sconst OtherException))))
     = Some (False, [1], 2)"
  using post_comment_retry_policy[of "default_config ''UC''" "[HttpError 503, HttpError 429]"
      "fresh_world ([HttpError 503, HttpError 429] @- (Posted ## sconst OtherException))"
      "sconst OtherException" "''v''"]
    post_comment_retry_policy[of "(default_config ''UC'')\<lparr>MAX_RETRIES := 2\<rparr>"
      "[HttpError 503, HttpError 429]"
      "fresh_world ([HttpError 503, HttpError 429] @- (Posted ## sconst OtherException))"
      "sconst OtherException" "''v''"]
  by (auto simp: default_config_def fresh_world_def is_transient_def retryable_def
      summary_def spec_backoff_def numeral_2_eq_2)

text \<open>
  The claim as first stated puts no condition on \<open>i\<close> and \<open>c\<close>. The first sleep lasts \<open>i\<close>
  seconds whatever the cap is: with \<open>i = 500\<close> and \<open>c = 300\<close> one transient failure is
  followed by a sleep of 500 seconds, not of \<open>min (500 * 2 ^ 0) 300 = 300\<close>.
\<close>

theorem post_comment_retry_policy_counterexample:
  "summary (post_comment ((default_config ''UC'')\<lparr>INITIAL_BACKOFF := 500\<rparr>) ''v''
      (fresh_world ([HttpError 503] @- sconst Posted))) = Some (True, [500], 2)
   \<and> map (spec_backoff 500 300) [0..<1] = [300]"
  by (simp add: post_comment_eval spec_backoff_def)

theorem post_comment_non_transient_witness:
  "summary (post_comment (default_config ''UC'') ''v''
      (fresh_world ([HttpError 503, HttpError 500] @- (HttpError 403 ## sconst Posted))))
     = Some (False, [1, 2], 3)"
  using post_comment_non_transient[of "[HttpError 503, HttpError 500]" "HttpError 403"
      "fresh_world ([HttpError 503, HttpError 500] @- (HttpError 403 ## sconst Posted))"
      "sconst Posted" "default_config ''UC''" "''v''"]
  by (auto simp: default_config_def fresh_world_def is_transient_def is_non_transient_def
      retryable_def summary_def numeral_2_eq_2 less_Suc_eq)

theorem post_comment_no_retries_witness:
  "summary (post_comment ((default_config ''UC'')\<lparr>MAX_RETRIES := 0\<rparr>) ''v''
      (fresh_world (sconst Posted))) = Some (False, [], 0)"
  using post_comment_no_retries[of "(default_config ''UC'')\<lparr>MAX_RETRIES := 0\<rparr>" "''v''"
      "fresh_world (sconst Posted)"]
  by (simp add: default_config_def fresh_world_def summary_def)

section \<open>The seen-video store\<close>

lemma key_of_json_of_key: "key_of (json_of_key k) = Some k"
  by (cases k) simp_all

lemma py_set_dumped:
  "py_set (JArr (map json_of_key ks)) = Some (set ks)"
  by (simp add: py_set_def list_all_iff key_of_json_of_key comp_def)

lemma load_saved_document:
  assumes "disk w = Document (state_document st w0)"
    "set (set_order w0 (last_seen_videos st)) = last_seen_videos st"
  shows "new_state_manager w = (st, logger Info LoadedState w)"
  using assms
  by (simp add: new_state_manager_def load_state_def state_document_def dict_get_def
      py_set_dumped)

lemma mark_video_seen_state:
  "fst (mark_video_seen st w vid) =
     st\<lparr>last_seen_videos := insert (KStr vid) (last_seen_videos st),
        last_check_time := JStr (shd (clock w))\<rparr>"
  by (simp add: mark_video_seen_def utcnow_isoformat_def Let_def)

text \<open>
  Claim C5. For every video id and every store, \<^verbatim>\<open>mark_video_seen\<close> leaves a store in which
  \<^verbatim>\<open>is_video_seen\<close> of that id is true. When the write of the state file succeeds (and the
  list written enumerates the set), a store constructed afterwards from the file is the
  same store, so the id is still seen after the reload.
\<close>

theorem mark_seen_round_trip:
  "is_video_seen (fst (mark_video_seen st w vid)) vid \<and>
   (shd (write_outcomes w) = WriteOk \<and>
    set (set_order w (insert (KStr vid) (last_seen_videos st))) =
      insert (KStr vid) (last_seen_videos st)
    \<longrightarrow> fst (new_state_manager (snd (mark_video_seen st w vid))) = fst (mark_video_seen st w vid)
      \<and> is_video_seen (fst (new_state_manager (snd (mark_video_seen st w vid)))) vid)"
proof (intro conjI impI)
  show seen: "is_video_seen (fst (mark_video_seen st w vid)) vid"
    by (simp add: mark_video_seen_state is_video_seen_def)
  assume h: "shd (write_outcomes w) = WriteOk \<and>
    set (set_order w (insert (KStr vid) (last_seen_videos st))) =
      insert (KStr vid) (last_seen_videos st)"
  let ?st1 = "fst (mark_video_seen st w vid)" and ?w1 = "snd (mark_video_seen st w vid)"
  let ?wc = "w\<lparr>clock := stl (clock w)\<rparr>"
  have d: "disk ?w1 = Document (state_document ?st1 ?wc)"
    using h by (simp add: mark_video_seen_def utcnow_isoformat_def Let_def save_state_def
        write_state_file_def logger_def)
  have o: "set (set_order ?wc (last_seen_videos ?st1)) = last_seen_videos ?st1"
    using h by (simp add: mark_video_seen_state)
  show r: "fst (new_state_manager ?w1) = ?st1"
    using load_saved_document[OF d o] by simp
  show "is_video_seen (fst (new_state_manager ?w1)) vid"
    unfolding r by (rule seen)
qed

text \<open>
  Claim C6. When the write inside \<^verbatim>\<open>mark_video_seen\<close> raises, the exception is caught in
  \<^verbatim>\<open>save_state\<close>: the call returns, one error line is logged, and the store in memory has
  the new id and the new time stamp, exactly as after a successful write.
\<close>

theorem mark_seen_write_failure:
  assumes "shd (write_outcomes w) = WriteFails left_behind"
  shows "mark_video_seen st w vid =
     (st\<lparr>last_seen_videos := insert (KStr vid) (last_seen_videos st),
         last_check_time := JStr (shd (clock w))\<rparr>,
      w\<lparr>clock := stl (clock w), write_outcomes := stl (write_outcomes w),
        disk := left_behind, logs := logs w @ [(Error, ErrorSavingState)]\<rparr>)
   \<and> fst (mark_video_seen st w vid) =
     fst (mark_video_seen st (w\<lparr>write_outcomes := WriteOk ## stl (write_outcomes w)\<rparr>) vid)"
  using assms
  by (cases w) (simp add: mark_video_seen_def utcnow_isoformat_def Let_def save_state_def
      write_state_file_def logger_def)

lemma apply_store_op_mono:
  "last_seen_videos (fst sw) \<subseteq> last_seen_videos (fst (apply_store_op op sw))"
  by (cases op; cases sw) (auto simp: mark_video_seen_state)

text \<open>
  Claim C7. Whatever operations are applied to a constructed store (\<^verbatim>\<open>is_video_seen\<close>,
  \<^verbatim>\<open>mark_video_seen\<close>, \<^verbatim>\<open>save_state\<close>, \<^verbatim>\<open>get_last_check_time\<close>), in whatever order and
  whether the writes succeed or not, every id of the seen set stays in it.
\<close>

theorem seen_set_never_shrinks:
  "last_seen_videos st \<subseteq> last_seen_videos (fst (run_store_ops ops (st, w)))"
proof -
  have "last_seen_videos (fst sw) \<subseteq> last_seen_videos (fst (run_store_ops ops sw))" for sw
  proof (induction ops arbitrary: sw)
    case Nil
    show ?case by simp
  next
    case (Cons op ops)
    have "last_seen_videos (fst sw) \<subseteq> last_seen_videos (fst (apply_store_op op sw))"
      by (rule apply_store_op_mono)
    also have "\<dots> \<subseteq> last_seen_videos (fst (run_store_ops ops (apply_store_op op sw)))"
      by (rule Cons.IH)
    finally show ?case by simp
  qed
  from this[of "(st, w)"] show ?thesis by simp
qed

text \<open>
  Claim C9. Constructing the store when the state file does not exist gives the empty set
  and no time stamp, with an information line in the log. Constructing it from a
  malformed file (one that cannot be opened or parsed, or whose content is not a JSON object
  with a usable \<^verbatim>\<open>last_seen_videos\<close>) gives the same empty store and logs the error. The
  constructor returns a store in every case.
\<close>

theorem load_missing_or_malformed:
  "(disk w = Absent \<longrightarrow>
      new_state_manager w =
        (\<lparr>last_seen_videos = {}, last_check_time = JNull\<rparr>,
         w\<lparr>logs := logs w @ [(Info, NoStateFile)]\<rparr>))
   \<and> (malformed (disk w) \<longrightarrow>
      new_state_manager w =
        (\<lparr>last_seen_videos = {}, last_check_time = JNull\<rparr>,
         w\<lparr>logs := logs w @ [(Error, ErrorLoadingState)]\<rparr>))"
  by (auto simp: new_state_manager_def load_state_def malformed_def empty_state_def logger_def
      split: file_content.splits json.splits option.splits)


theorem mark_seen_round_trip_witness:
  "is_video_seen (fst (mark_video_seen empty_state
       ((fresh_world (sconst Posted))\<lparr>set_order := \<lambda>keys. [KStr ''abc'']\<rparr>) ''abc'')) ''abc''
   \<and> is_video_seen (fst (new_state_manager (snd (mark_video_seen empty_state
       ((fresh_world (sconst Posted))\<lparr>set_order := \<lambda>keys. [KStr ''abc'']\<rparr>) ''abc'')))) ''abc''"
  using mark_seen_round_trip[of empty_state
      "(fresh_world (sconst Posted))\<lparr>set_order := \<lambda>keys. [KStr ''abc'']\<rparr>" "''abc''"]
  by (simp add: fresh_world_def empty_state_def)

theorem mark_seen_write_failure_witness:
  "mark_video_seen empty_state
     ((fresh_world (sconst Posted))\<lparr>write_outcomes := WriteFails Unreadable ## sconst WriteOk\<rparr>)
     ''abc'' =
   (\<lparr>last_seen_videos = {KStr ''abc''}, last_check_time = JStr ''2024-01-01T00:00:00''\<rparr>,
    (fresh_world (sconst Posted))\<lparr>write_outcomes := sconst WriteOk, disk := Unreadable,
       logs := [(Error, ErrorSavingState)]\<rparr>)"
  using mark_seen_write_failure[of
      "(fresh_world (sconst Posted))\<lparr>write_outcomes := WriteFails Unreadable ## sconst WriteOk\<rparr>"
      Unreadable empty_state "''abc''"]
  by (simp add: fresh_world_def empty_state_def)

theorem seen_set_never_shrinks_witness:
  "{KStr ''old''} \<subseteq> last_seen_videos (fst (run_store_ops
       [IsSeen ''new'', MarkSeen ''new'', Save, GetLastCheckTime, MarkSeen ''old'']
       (\<lparr>last_seen_videos = {KStr ''old''}, last_check_time = JNull\<rparr>,
        fresh_world (sconst Posted))))"
  using seen_set_never_shrinks[of "\<lparr>last_seen_videos = {KStr ''old''}, last_check_time = JNull\<rparr>"
      "[IsSeen ''new'', MarkSeen ''new'', Save, GetLastCheckTime, MarkSeen ''old'']"
      "fresh_world (sconst Posted)"]
  by simp

theorem load_missing_or_malformed_witness:
  "fst (new_state_manager (fresh_world (sconst Posted))) =
     \<lparr>last_seen_videos = {}, last_check_time = JNull\<rparr>
   \<and> new_state_manager ((fresh_world (sconst Posted))\<lparr>disk := Unreadable\<rparr>) =
     (\<lparr>last_seen_videos = {}, last_check_time = JNull\<rparr>,
      (fresh_world (sconst Posted))\<lparr>disk := Unreadable, logs := [(Error, ErrorLoadingState)]\<rparr>)
   \<and> new_state_manager ((fresh_world (sconst Posted))\<lparr>disk :=
        Document (JObj [(''last_seen_videos'', JNum 7)])\<rparr>) =
     (\<lparr>last_seen_videos = {}, last_check_time = JNull\<rparr>,
      (fresh_world (sconst Posted))\<lparr>disk := Document (JObj [(''last_seen_videos'', JNum 7)]),
         logs := [(Error, ErrorLoadingState)]\<rparr>)"
  using load_missing_or_malformed[of "fresh_world (sconst Posted)"]
    load_missing_or_malformed[of "(fresh_world (sconst Posted))\<lparr>disk := Unreadable\<rparr>"]
    load_missing_or_malformed[of "(fresh_world (sconst Posted))\<lparr>disk :=
        Document (JObj [(''last_seen_videos'', JNum 7)])\<rparr>"]
  by (simp add: fresh_world_def malformed_def dict_get_def py_set_def)

section \<open>Parsing durations\<close>

lemma digit_char_props:
  assumes "d < 10"
  shows "is_digit (digit_char d)" "int (of_char (digit_char d)) - 48 = int d"
    "digit_char d \<noteq> CHR ''P''"
proof -
  from assms consider "d = 0" | "d = 1" | "d = 2" | "d = 3" | "d = 4" | "d = 5" | "d = 6"
    | "d = 7" | "d = 8" | "d = 9" by atomize_elim arith
  then have "is_digit (digit_char d) \<and> int (of_char (digit_char d)) - 48 = int d \<and> digit_char d \<noteq> CHR ''P''"
    by cases (simp_all add: digit_char_def is_digit_def)
  then show "is_digit (digit_char d)" "int (of_char (digit_char d)) - 48 = int d"
    "digit_char d \<noteq> CHR ''P''" by simp_all
qed

lemma py_int_snoc: "py_int (ds @ [ch]) = py_int ds * 10 + (int (of_char ch) - 48)"
  by (simp add: py_int_def)

lemma decimal_digits: "list_all is_digit (decimal n) \<and> decimal n \<noteq> [] \<and> CHR ''P'' \<notin> set (decimal n)"
proof (induction n rule: decimal.induct)
  case (1 n)
  show ?case
  proof (cases "n < 10")
    case True
    then show ?thesis
      by (subst (1 2 3) decimal.simps) (simp add: digit_char_props digit_char_props(3)[symmetric])
  next
    case False
    then have "n mod 10 < 10" by simp
    with False 1 show ?thesis
      by (subst (1 2 3) decimal.simps) (simp add: digit_char_props digit_char_props(3)[symmetric])
  qed
qed

lemma py_int_decimal: "py_int (decimal n) = int n"
proof (induction n rule: decimal.induct)
  case (1 n)
  show ?case
  proof (cases "n < 10")
    case True
    then show ?thesis
      by (subst decimal.simps) (simp add: py_int_def digit_char_props)
  next
    case False
    have m: "n mod 10 < 10" by simp
    have "py_int (decimal n) = py_int (decimal (n div 10)) * 10 + (int (of_char (digit_char (n mod 10))) - 48)"
      using False by (subst decimal.simps) (simp add: py_int_snoc)
    also have "\<dots> = int (n div 10) * 10 + int (n mod 10)"
      using 1 False by (simp add: digit_char_props(2)[OF m])
    also have "\<dots> = int n" by (simp add: zdiv_int zmod_int)
    finally show ?thesis .
  qed
qed

lemma digits_then_letter:
  assumes "list_all is_digit ds" "\<not> is_digit u"
  shows "takeWhile is_digit (ds @ u # r) = ds" "dropWhile is_digit (ds @ u # r) = u # r"
  using assms by (induction ds) simp_all

lemma re_search_hit:
  assumes "list_all is_digit ds" "ds \<noteq> []" "\<not> is_digit u"
  shows "re_search u (ds @ u # r) = Some ds"
proof -
  from assms(2) obtain d ds' where ds: "ds = d # ds'" by (cases ds) auto
  have "match_here u (ds @ u # r) = Some ds"
    using assms by (simp add: match_here_def digits_then_letter)
  then show ?thesis by (simp add: ds)
qed

lemma re_search_skip:
  assumes "list_all is_digit ds" "\<not> is_digit v" "v \<noteq> u"
  shows "re_search u (ds @ v # r) = re_search u r"
  using assms(1)
proof (induction ds)
  case Nil
  then show ?case using assms(2) by (simp add: match_here_def)
next
  case (Cons d ds)
  have "match_here u ((d # ds) @ v # r) = None"
    using Cons.prems assms(2,3) by (simp add: match_here_def digits_then_letter)
  with Cons show ?case by simp
qed

lemma replace_PT_id: "CHR ''P'' \<notin> set s \<Longrightarrow> replace_PT s = s"
  by (induction s rule: replace_PT.induct) auto

lemma letters_no_digit: "\<not> is_digit CHR ''H''" "\<not> is_digit CHR ''M''" "\<not> is_digit CHR ''S''"
  by (simp_all add: is_digit_def)

lemma re_search_unit_hit:
  "\<not> is_digit u \<Longrightarrow> re_search u (unit_part (Some n) u @ r) = Some (decimal n)"
  using re_search_hit[of "decimal n" u r] decimal_digits[of n] by (simp add: unit_part_def)

lemma re_search_unit_skip:
  "\<not> is_digit v \<Longrightarrow> v \<noteq> u \<Longrightarrow> re_search u (unit_part x v @ r) = re_search u r"
  using re_search_skip[of "decimal n" v u r for n] decimal_digits
  by (cases x) (simp_all add: unit_part_def)

lemma unit_part_no_P: "u \<noteq> CHR ''P'' \<Longrightarrow> CHR ''P'' \<notin> set (unit_part x u)"
  using decimal_digits by (cases x) (simp_all add: unit_part_def)

lemma searched_value:
  "\<not> is_digit u \<Longrightarrow>
   (case re_search u (unit_part x u @ r) of Some g \<Rightarrow> py_int g | None \<Rightarrow> 0) =
   (case x of Some n \<Rightarrow> int n | None \<Rightarrow> (case re_search u r of Some g \<Rightarrow> py_int g | None \<Rightarrow> 0))"
  by (cases x) (simp_all add: re_search_unit_hit py_int_decimal, simp add: unit_part_def)

text \<open>
  Claim C8. For every token \<^verbatim>\<open>PT[hH][mM][sS]\<close>, each unit present or absent and each number
  written in decimal, \<^verbatim>\<open>_parse_duration\<close> returns \<open>h * 3600 + m * 60 + s\<close>, an absent unit
  counting as zero.
\<close>

theorem parse_duration_compact:
  "parse_duration (compact_token h m s) =
     unit_value h * 3600 + unit_value m * 60 + unit_value s"
proof -
  let ?body = "unit_part h CHR ''H'' @ unit_part m CHR ''M'' @ unit_part s CHR ''S''"
  have "CHR ''P'' \<notin> set ?body" by (simp add: unit_part_no_P)
  then have d: "replace_PT (compact_token h m s) = ?body"
    by (simp add: compact_token_def replace_PT_id)
  have H: "(case re_search CHR ''H'' ?body of Some g \<Rightarrow> py_int g | None \<Rightarrow> 0) = unit_value h"
    by (simp add: searched_value letters_no_digit re_search_unit_skip[where r="[]", simplified]
        re_search_unit_skip unit_value_def split: option.splits)
  have M: "(case re_search CHR ''M'' ?body of Some g \<Rightarrow> py_int g | None \<Rightarrow> 0) = unit_value m"
    by (simp add: searched_value letters_no_digit re_search_unit_skip[where r="[]", simplified]
        re_search_unit_skip unit_value_def split: option.splits)
  have S: "(case re_search CHR ''S'' ?body of Some g \<Rightarrow> py_int g | None \<Rightarrow> 0) = unit_value s"
    using searched_value[of "CHR ''S''" s "[]"]
    by (simp add: letters_no_digit re_search_unit_skip unit_value_def split: option.splits)
  show ?thesis
    unfolding parse_duration_def d Let_def H M S ..
qed

theorem parse_duration_compact_witness:
  "compact_token None (Some 1) (Some 30) = ''PT1M30S'' \<and> parse_duration ''PT1M30S'' = 90
   \<and> compact_token (Some 12) None (Some 5) = ''PT12H5S'' \<and> parse_duration ''PT12H5S'' = 43205"
  using parse_duration_compact[of None "Some 1" "Some 30"]
    parse_duration_compact[of "Some 12" None "Some 5"]
  by (simp add: compact_token_def unit_part_def unit_value_def decimal.simps digit_char_def)

section \<open>The poll cycle\<close>

lemma post_comment_loop_returns:
  assumes "0 \<le> b" "0 \<le> MAX_BACKOFF cfg"
  shows "\<exists>ok lg sl n s. post_comment_loop cfg vid r b w =
     Inr (ok, w\<lparr>logs := lg, sleeps := sl, insert_calls := n, insert_outcomes := s\<rparr>)"
  using assms
proof (induction cfg vid r b w rule: post_comment_loop.induct)
  case (1 cfg vid retries backoff w)
  let ?w1 = "w\<lparr>insert_outcomes := stl (insert_outcomes w), insert_calls := Suc (insert_calls w)\<rparr>"
  have same: "w\<lparr>logs := logs w, sleeps := sleeps w, insert_calls := insert_calls w,
      insert_outcomes := insert_outcomes w\<rparr> = w" by simp
  show ?case
  proof (cases "retries < MAX_RETRIES cfg")
    case False
    then have "post_comment_loop cfg vid retries backoff w = Inr (False, w)"
      by (subst post_comment_loop.simps) simp
    with same show ?thesis by metis
  next
    case True
    note lt = this
    show ?thesis
    proof (cases "shd (insert_outcomes w)")
      case Posted
      with lt have "post_comment_loop cfg vid retries backoff w =
         Inr (True, w\<lparr>logs := logs w @ [(Info, PostedComment vid)], sleeps := sleeps w,
           insert_calls := Suc (insert_calls w), insert_outcomes := stl (insert_outcomes w)\<rparr>)"
        by (subst post_comment_loop.simps, cases w) (simp add: execute_insert_def logger_def)
      then show ?thesis by blast
    next
      case OtherException
      with lt have "post_comment_loop cfg vid retries backoff w =
         Inr (False, w\<lparr>logs := logs w @ [(Error, UnexpectedErrorPosting vid)], sleeps := sleeps w,
           insert_calls := Suc (insert_calls w), insert_outcomes := stl (insert_outcomes w)\<rparr>)"
        by (subst post_comment_loop.simps, cases w) (simp add: execute_insert_def logger_def)
      then show ?thesis by blast
    next
      case (HttpError st)
      show ?thesis
      proof (cases "retryable st")
        case False
        with lt HttpError have "post_comment_loop cfg vid retries backoff w =
           Inr (False, w\<lparr>logs := logs w @ [(Error, HttpErrorPosting vid)], sleeps := sleeps w,
             insert_calls := Suc (insert_calls w), insert_outcomes := stl (insert_outcomes w)\<rparr>)"
          by (subst post_comment_loop.simps, cases w) (simp add: execute_insert_def logger_def)
        then show ?thesis by blast
      next
        case True
        note rt = this
        show ?thesis
        proof (cases "retries + 1 < MAX_RETRIES cfg")
          case False
          with lt HttpError rt have "post_comment_loop cfg vid retries backoff w =
             Inr (False, w\<lparr>logs := logs w @ [(Error, RetriesExhausted)], sleeps := sleeps w,
               insert_calls := Suc (insert_calls w), insert_outcomes := stl (insert_outcomes w)\<rparr>)"
            by (subst post_comment_loop.simps, cases w) (simp add: execute_insert_def logger_def)
          then show ?thesis by blast
        next
          case True
          define w2 where "w2 = (logger Warning (RetryingIn st backoff (retries + 1)) ?w1)\<lparr>sleeps :=
              sleeps (logger Warning (RetryingIn st backoff (retries + 1)) ?w1) @ [backoff]\<rparr>"
          have ex: "execute_insert w = (HttpError st, ?w1)"
            using HttpError by (simp add: execute_insert_def)
          have sl: "time_sleep backoff (logger Warning (RetryingIn st backoff (retries + 1)) ?w1) = Inr w2"
            using "1.prems"(1) by (simp add: time_sleep_def w2_def)
          have step: "post_comment_loop cfg vid retries backoff w =
              post_comment_loop cfg vid (retries + 1) (min (backoff * 2) (MAX_BACKOFF cfg)) w2"
            using lt rt True ex sl by (subst post_comment_loop.simps) simp
          have nn: "0 \<le> min (backoff * 2) (MAX_BACKOFF cfg)" using "1.prems" by simp
          from "1.IH"[OF lt ex[symmetric] refl rt True sl nn "1.prems"(2)]
          obtain ok lg sl' n s where
            "post_comment_loop cfg vid (retries + 1) (min (backoff * 2) (MAX_BACKOFF cfg)) w2 =
              Inr (ok, w2\<lparr>logs := lg, sleeps := sl', insert_calls := n, insert_outcomes := s\<rparr>)"
            by blast
          moreover have "w2\<lparr>logs := lg, sleeps := sl', insert_calls := n, insert_outcomes := s\<rparr> =
             w\<lparr>logs := lg, sleeps := sl', insert_calls := n, insert_outcomes := s\<rparr>"
            by (cases w) (simp add: w2_def logger_def)
          ultimately show ?thesis unfolding step by metis
        qed
      qed
    qed
  qed
qed


lemma post_comment_returns:
  assumes "0 \<le> INITIAL_BACKOFF cfg" "0 \<le> MAX_BACKOFF cfg"
  shows "\<exists>ok w'. post_comment cfg vid w = Inr (ok, w') \<and>
     post_calls w' = post_calls w @ [vid] \<and> videos_responses w' = videos_responses w"
proof -
  from post_comment_loop_returns[OF assms, of vid 0 "w\<lparr>post_calls := post_calls w @ [vid]\<rparr>"]
  obtain ok lg sl n s where
    "post_comment cfg vid w = Inr (ok, (w\<lparr>post_calls := post_calls w @ [vid]\<rparr>)\<lparr>logs := lg,
       sleeps := sl, insert_calls := n, insert_outcomes := s\<rparr>)"
    unfolding post_comment_def by blast
  then show ?thesis by simp
qed

lemma mark_video_seen_frame:
  "post_calls (snd (mark_video_seen st w vid)) = post_calls w"
  "videos_responses (snd (mark_video_seen st w vid)) = videos_responses w"
  "sleeps (snd (mark_video_seen st w vid)) = sleeps w"
  "insert_calls (snd (mark_video_seen st w vid)) = insert_calls w"
  by (simp_all add: mark_video_seen_def utcnow_isoformat_def Let_def save_state_def
      write_state_file_def logger_def split: write_outcome.splits)

lemma randint_returns:
  assumes "a \<le> b"
  shows "\<exists>d. randint a b w = Inr (d, w\<lparr>randint_draws := stl (randint_draws w)\<rparr>) \<and> a \<le> d \<and> d \<le> b"
proof -
  let ?d = "a + int (shd (randint_draws w)) mod (b - a + 1)"
  have p: "0 < b - a + 1" using assms by simp
  have "0 \<le> int (shd (randint_draws w)) mod (b - a + 1)"
    using p by (rule pos_mod_sign)
  moreover have "int (shd (randint_draws w)) mod (b - a + 1) < b - a + 1"
    using p by (rule pos_mod_bound)
  ultimately have "a \<le> ?d" "?d \<le> b" by simp_all
  moreover have "randint a b w = Inr (?d, w\<lparr>randint_draws := stl (randint_draws w)\<rparr>)"
    using assms by (simp add: randint_def)
  ultimately show ?thesis by blast
qed

lemma comment_and_mark_returns:
  assumes "sleeps_legal cfg"
  shows "\<exists>st' w'. comment_and_mark cfg st w v = Inr (st', w') \<and>
     last_seen_videos st' = insert (KStr (video_id v)) (last_seen_videos st) \<and>
     post_calls w' = post_calls w @ [video_id v] \<and>
     videos_responses w' = videos_responses w"
proof -
  from assms have c: "0 \<le> MIN_COMMENT_DELAY cfg" "MIN_COMMENT_DELAY cfg \<le> MAX_COMMENT_DELAY cfg"
    "0 \<le> INITIAL_BACKOFF cfg" "0 \<le> MAX_BACKOFF cfg"
    by (simp_all add: sleeps_legal_def)
  from randint_returns[OF c(2), of w] obtain d where
    r: "randint (MIN_COMMENT_DELAY cfg) (MAX_COMMENT_DELAY cfg) w =
          Inr (d, w\<lparr>randint_draws := stl (randint_draws w)\<rparr>)"
    and d: "MIN_COMMENT_DELAY cfg \<le> d" by blast
  let ?w1 = "w\<lparr>randint_draws := stl (randint_draws w)\<rparr>"
  define w2 where "w2 = (logger Info (WaitingBeforeComment d) ?w1)\<lparr>sleeps :=
     sleeps (logger Info (WaitingBeforeComment d) ?w1) @ [d]\<rparr>"
  have s: "time_sleep d (logger Info (WaitingBeforeComment d) ?w1) = Inr w2"
    using c(1) d by (simp add: time_sleep_def w2_def)
  let ?w3 = "logger Debug CommentText (logger Info (PostingComment (video_id v)) w2)"
  from post_comment_returns[OF c(3,4), of "video_id v" ?w3] obtain ok w4 where
    p: "post_comment cfg (video_id v) ?w3 = Inr (ok, w4)"
    and f: "post_calls w4 = post_calls ?w3 @ [video_id v]"
      "videos_responses w4 = videos_responses ?w3" by blast
  let ?w5 = "if ok then logger Info (CommentSucceeded (title v)) w4
             else logger Error (CommentFailed (title v)) w4"
  have run: "comment_and_mark cfg st w v = Inr (mark_video_seen st ?w5 (video_id v))"
    by (simp add: comment_and_mark_def r s p)
  have w3: "post_calls ?w3 = post_calls w" "videos_responses ?w3 = videos_responses w"
    by (simp_all add: w2_def logger_def)
  have w5: "post_calls ?w5 = post_calls w4" "videos_responses ?w5 = videos_responses w4"
    by (simp_all add: logger_def)
  obtain st' w' where m: "mark_video_seen st ?w5 (video_id v) = (st', w')"
    by (cases "mark_video_seen st ?w5 (video_id v)")
  have "last_seen_videos st' = insert (KStr (video_id v)) (last_seen_videos st)"
    using mark_video_seen_state[of st ?w5 "video_id v"] m by simp
  moreover have "post_calls w' = post_calls w @ [video_id v]"
    using mark_video_seen_frame(1)[of st ?w5 "video_id v"] m f(1) w3(1) w5(1) by simp
  moreover have "videos_responses w' = videos_responses w"
    using mark_video_seen_frame(2)[of st ?w5 "video_id v"] m f(2) w3(2) w5(2) by simp
  ultimately show ?thesis using run m by simp
qed

lemma passes_filter_shd:
  assumes "passes_filter cfg w" "SHORTS_ONLY cfg" "videos_responses w1 = videos_responses w"
  shows "is_short cfg vid w1 = (True, w1\<lparr>videos_responses := stl (videos_responses w1)\<rparr>)"
proof -
  have "shd (videos_responses w) \<in> sset (videos_responses w)" by (rule shd_sset)
  with assms(1,2) have "short_answer cfg (shd (videos_responses w))"
    by (simp add: passes_filter_def)
  then show ?thesis
    using assms(3)
    by (auto simp: short_answer_def is_short_def get_video_duration_def Let_def
        split: videos_response.splits)
qed

lemma passes_filter_mono:
  assumes "passes_filter cfg w" "sset (videos_responses w') \<subseteq> sset (videos_responses w)"
  shows "passes_filter cfg w'"
  using assms by (auto simp: passes_filter_def)

lemma process_video_unseen:
  assumes "\<not> is_video_seen st (video_id v)" "sleeps_legal cfg" "passes_filter cfg w"
  shows "\<exists>st' w'. process_video cfg st w v = Inr (st', w') \<and>
     last_seen_videos st' = insert (KStr (video_id v)) (last_seen_videos st) \<and>
     post_calls w' = post_calls w @ [video_id v] \<and>
     passes_filter cfg w'"
proof (cases "SHORTS_ONLY cfg")
  case False
  let ?w1 = "logger Info (ProcessingNewVideo (video_id v)) w"
  have run: "process_video cfg st w v = comment_and_mark cfg st ?w1 v"
    using assms(1) False by (simp add: process_video_def Let_def)
  from comment_and_mark_returns[OF assms(2), of st ?w1 v] obtain st' w' where
    "comment_and_mark cfg st ?w1 v = Inr (st', w')"
    "last_seen_videos st' = insert (KStr (video_id v)) (last_seen_videos st)"
    "post_calls w' = post_calls ?w1 @ [video_id v]" by blast
  moreover have "passes_filter cfg w'" using False by (simp add: passes_filter_def)
  ultimately show ?thesis unfolding run by (simp add: logger_def)
next
  case True
  let ?w1 = "logger Info (ProcessingNewVideo (video_id v)) w"
  let ?w2 = "?w1\<lparr>videos_responses := stl (videos_responses ?w1)\<rparr>"
  let ?w3 = "logger Info (IsAShort (video_id v)) ?w2"
  have vr: "videos_responses ?w1 = videos_responses w" by (simp add: logger_def)
  have run: "process_video cfg st w v = comment_and_mark cfg st ?w3 v"
    using assms(1) True passes_filter_shd[OF assms(3) True vr, of "video_id v"]
    by (simp add: process_video_def Let_def)
  from comment_and_mark_returns[OF assms(2), of st ?w3 v] obtain st' w' where
    r: "comment_and_mark cfg st ?w3 v = Inr (st', w')"
    "last_seen_videos st' = insert (KStr (video_id v)) (last_seen_videos st)"
    "post_calls w' = post_calls ?w3 @ [video_id v]"
    "videos_responses w' = videos_responses ?w3" by blast
  have "sset (videos_responses w') \<subseteq> sset (videos_responses w)"
    using r(4) by (auto simp: logger_def dest: stl_sset)
  then have "passes_filter cfg w'" by (rule passes_filter_mono[OF assms(3)])
  with r show ?thesis unfolding run by (simp add: logger_def)
qed



lemma process_videos_run:
  assumes "distinct (map video_id videos)" "sleeps_legal cfg" "passes_filter cfg w"
  shows "\<exists>st' w'. process_videos cfg videos n st w =
       Inr (n + int (length (unseen st videos)), st', w') \<and>
     last_seen_videos st' = last_seen_videos st \<union> KStr ` video_id ` set (unseen st videos) \<and>
     post_calls w' = post_calls w @ map video_id (unseen st videos)"
  using assms(1,3)
proof (induction videos arbitrary: n st w)
  case Nil
  then show ?case by (simp add: unseen_def)
next
  case (Cons v videos)
  from Cons.prems(1) have dist: "distinct (map video_id videos)"
    and notin: "video_id v \<notin> video_id ` set videos" by simp_all
  have fresh: "\<forall>x\<in>set videos. video_id x \<noteq> video_id v"
  proof (intro ballI notI)
    fix x assume "x \<in> set videos" "video_id x = video_id v"
    then have "video_id v \<in> video_id ` set videos" by (metis imageI)
    with notin show False by simp
  qed
  show ?case
  proof (cases "is_video_seen st (video_id v)")
    case True
    from Cons.IH[OF dist Cons.prems(2), of n st] True show ?thesis
      by (simp add: unseen_def)
  next
    case False
    from process_video_unseen[OF False assms(2) Cons.prems(2)] obtain st1 w1 where
      pv: "process_video cfg st w v = Inr (st1, w1)"
      and s1: "last_seen_videos st1 = insert (KStr (video_id v)) (last_seen_videos st)"
      and p1: "post_calls w1 = post_calls w @ [video_id v]"
      and f1: "passes_filter cfg w1" by blast
    have same: "unseen st1 videos = unseen st videos"
      unfolding unseen_def using fresh s1
      by (intro filter_cong refl) (auto simp: is_video_seen_def)
    from Cons.IH[OF dist f1, of "n + 1" st1] obtain st' w' where
      run: "process_videos cfg videos (n + 1) st1 w1 =
         Inr (n + 1 + int (length (unseen st1 videos)), st', w')"
      and s': "last_seen_videos st' = last_seen_videos st1 \<union> KStr ` video_id ` set (unseen st1 videos)"
      and p': "post_calls w' = post_calls w1 @ map video_id (unseen st1 videos)" by blast
    have u: "unseen st (v # videos) = v # unseen st videos"
      using False by (simp add: unseen_def)
    show ?thesis
      using False pv run s' p' s1 p1 unfolding same u by simp
  qed
qed

text \<open>
  Claim C3, amended. Let the channel be configured, let the settings be such that no sleep
  raises, and let the Shorts filter be off or passed by every video. If the fetch of a
  cycle returns three videos with distinct ids of which exactly one is in the seen set,
  the cycle processes the two others: \<^verbatim>\<open>post_comment\<close> is called exactly twice, once for
  each unseen id in the order of the list, both ids enter the seen set, whose size grows
  by exactly two, and the log reports two processed videos. Nothing is assumed about the
  answers to the insert requests, so this holds whether either post succeeds or fails.
\<close>

theorem cycle_three_uploads_one_seen:
  assumes "CHANNEL_ID cfg \<noteq> []" "sleeps_legal cfg" "passes_filter cfg w"
    and "shd (uploads_responses w) = UploadsItems [a, b, c]"
    and "distinct (map video_id [a, b, c])"
    and "length (filter (\<lambda>v. is_video_seen st (video_id v)) [a, b, c]) = 1"
    and "finite (last_seen_videos st)"
  shows "\<exists>st' w'. check_for_new_videos cfg st w = Inr (st', w') \<and>
     length (unseen st [a, b, c]) = 2 \<and>
     post_calls w' = post_calls w @ map video_id (unseen st [a, b, c]) \<and>
     last_seen_videos st' = last_seen_videos st \<union> KStr ` video_id ` set (unseen st [a, b, c]) \<and>
     card (last_seen_videos st') = card (last_seen_videos st) + 2 \<and>
     last (logs w') = (Info, ProcessedVideos 2)"
proof -
  let ?vs = "[a, b, c]"
  let ?w1 = "logger Info (FetchedVideos (length ?vs))
      ((logger Info CheckingChannel w)\<lparr>uploads_responses :=
          stl (uploads_responses (logger Info CheckingChannel w))\<rparr>)"
  have g: "get_channel_uploads (logger Info CheckingChannel w) = (?vs, ?w1)"
    using assms(4) by (simp add: get_channel_uploads_def logger_def Let_def)
  have pf: "passes_filter cfg ?w1"
    using assms(3) by (simp add: passes_filter_def logger_def)
  have "length (filter (\<lambda>v. is_video_seen st (video_id v)) ?vs) + length (unseen st ?vs) = length ?vs"
    unfolding unseen_def by (rule sum_length_filter_compl)
  with assms(6) have two: "length (unseen st ?vs) = 2" by simp
  from process_videos_run[OF assms(5,2) pf, of 0 st] obtain st' w' where
    run: "process_videos cfg ?vs 0 st ?w1 = Inr (0 + int (length (unseen st ?vs)), st', w')"
    and s': "last_seen_videos st' = last_seen_videos st \<union> KStr ` video_id ` set (unseen st ?vs)"
    and p': "post_calls w' = post_calls ?w1 @ map video_id (unseen st ?vs)" by blast
  have chk: "check_for_new_videos cfg st w = Inr (st', logger Info (ProcessedVideos 2) w')"
    using assms(1) g run two by (simp add: check_for_new_videos_def)
  have dis: "distinct (map video_id (unseen st ?vs))"
    unfolding unseen_def using assms(5) by (intro distinct_map_filter)
  have new: "KStr ` video_id ` set (unseen st ?vs) \<inter> last_seen_videos st = {}"
    by (auto simp: unseen_def is_video_seen_def)
  have inj: "inj KStr" by (simp add: inj_on_def)
  have "card (KStr ` video_id ` set (unseen st ?vs)) = card (video_id ` set (unseen st ?vs))"
    using inj by (intro card_image) (rule inj_on_subset, auto)
  also have "\<dots> = card (set (map video_id (unseen st ?vs)))" by simp
  also have "\<dots> = length (map video_id (unseen st ?vs))" using dis by (rule distinct_card)
  finally have cn: "card (KStr ` video_id ` set (unseen st ?vs)) = 2" using two by simp
  have "card (last_seen_videos st') =
      card (last_seen_videos st) + card (KStr ` video_id ` set (unseen st ?vs))"
    unfolding s' using assms(7) new by (intro card_Un_disjoint) auto
  with cn have cd: "card (last_seen_videos st') = card (last_seen_videos st) + 2" by simp
  show ?thesis
    unfolding chk using two s' p' cd by (simp add: logger_def)
qed

lemma fetch_none_iff:
  "fst (get_video_duration vid w) = None \<longleftrightarrow>
     shd (videos_responses w) = VideosError \<or> shd (videos_responses w) = VideosNoItems"
  by (simp add: get_video_duration_def Let_def split: videos_response.splits)

text \<open>
  Claim C2, amended. \<^verbatim>\<open>get_video_duration\<close> is called only in Shorts-only mode. There, an
  unseen video whose fetch yields no duration is taken for a video that is no Short:
  \<^verbatim>\<open>process_video\<close> neither sleeps nor posts, and it marks the video seen in the same
  cycle, so the video is not examined again.
\<close>

theorem failed_duration_fetch_marks_seen:
  assumes "SHORTS_ONLY cfg" "\<not> is_video_seen st (video_id v)"
    and "fst (get_video_duration (video_id v) w) = None"
  shows "\<exists>st' w'. process_video cfg st w v = Inr (st', w') \<and>
     is_video_seen st' (video_id v) \<and>
     last_seen_videos st' = insert (KStr (video_id v)) (last_seen_videos st) \<and>
     post_calls w' = post_calls w \<and> insert_calls w' = insert_calls w \<and> sleeps w' = sleeps w"
proof -
  let ?w1 = "logger Info (ProcessingNewVideo (video_id v)) w"
  have "fst (get_video_duration (video_id v) ?w1) = None"
    using assms(3) by (simp add: fetch_none_iff logger_def)
  then obtain w2 where g: "get_video_duration (video_id v) ?w1 = (None, w2)"
    by (cases "get_video_duration (video_id v) ?w1") simp
  have fr: "post_calls w2 = post_calls w" "insert_calls w2 = insert_calls w" "sleeps w2 = sleeps w"
    using g by (auto simp: get_video_duration_def Let_def logger_def split: videos_response.splits)
  let ?w3 = "logger Info (SkippingNonShort (video_id v)) w2"
  have run: "process_video cfg st w v = Inr (mark_video_seen st ?w3 (video_id v))"
    using assms(1,2) g by (simp add: process_video_def is_short_def Let_def)
  obtain st' w' where m: "mark_video_seen st ?w3 (video_id v) = (st', w')"
    by (cases "mark_video_seen st ?w3 (video_id v)")
  have st': "last_seen_videos st' = insert (KStr (video_id v)) (last_seen_videos st)"
    using mark_video_seen_state[of st ?w3 "video_id v"] m by simp
  have "post_calls w' = post_calls w" "insert_calls w' = insert_calls w" "sleeps w' = sleeps w"
    using mark_video_seen_frame[of st ?w3 "video_id v"] m fr by (simp_all add: logger_def)
  with st' show ?thesis unfolding run m by (simp add: is_video_seen_def)
qed


lemmas cycle_eval =
  check_for_new_videos_def get_channel_uploads_def process_video_def comment_and_mark_def
  is_short_def get_video_duration_def randint_def mark_video_seen_def utcnow_isoformat_def
  save_state_def write_state_file_def state_document_def is_video_seen_def
  seen_and_posts_def state_file_after_def upload_def empty_state_def Let_def

text \<open>
  The claim as first stated says that the seen state is left alone. In Shorts-only mode a
  failed fetch puts the id into the seen set and into the state file.
\<close>

theorem failed_duration_fetch_marks_seen_counterexample:
  "fst (get_video_duration ''v1''
      ((fresh_world (sconst Posted))\<lparr>uploads_responses := UploadsItems [upload ''v1''] ## sconst UploadsNoChannel,
         videos_responses := sconst VideosError, set_order := \<lambda>keys. [KStr ''v1'']\<rparr>)) = None
   \<and> seen_and_posts (check_for_new_videos ((default_config ''UC'')\<lparr>SHORTS_ONLY := True\<rparr>) empty_state
      ((fresh_world (sconst Posted))\<lparr>uploads_responses := UploadsItems [upload ''v1''] ## sconst UploadsNoChannel,
         videos_responses := sconst VideosError, set_order := \<lambda>keys. [KStr ''v1'']\<rparr>))
     = Some ({KStr ''v1''}, [])
   \<and> state_file_after (check_for_new_videos ((default_config ''UC'')\<lparr>SHORTS_ONLY := True\<rparr>) empty_state
      ((fresh_world (sconst Posted))\<lparr>uploads_responses := UploadsItems [upload ''v1''] ## sconst UploadsNoChannel,
         videos_responses := sconst VideosError, set_order := \<lambda>keys. [KStr ''v1'']\<rparr>))
     = Some (Document (JObj [(''last_seen_videos'', JArr [JStr ''v1'']),
                             (''last_check_time'', JStr ''2024-01-01T00:00:00'')]))"
  by (simp add: cycle_eval post_comment_eval)

theorem failed_duration_fetch_marks_seen_witness:
  "seen_and_posts (process_video ((default_config ''UC'')\<lparr>SHORTS_ONLY := True\<rparr>) empty_state
      (fresh_world (sconst Posted)) (upload ''v1'')) = Some ({KStr ''v1''}, [])"
  using failed_duration_fetch_marks_seen[of "(default_config ''UC'')\<lparr>SHORTS_ONLY := True\<rparr>"
      empty_state "upload ''v1''" "fresh_world (sconst Posted)"]
  by (auto simp: cycle_eval post_comment_eval)

text \<open>
  The claim as first stated has no condition on the Shorts filter. With the filter on and
  two unseen videos of ten minutes, both are marked seen and nothing is posted.
\<close>

theorem cycle_three_uploads_one_seen_counterexample:
  "seen_and_posts (check_for_new_videos ((default_config ''UC'')\<lparr>SHORTS_ONLY := True\<rparr>)
      \<lparr>last_seen_videos = {KStr ''v1''}, last_check_time = JNull\<rparr>
      ((fresh_world (sconst Posted))\<lparr>uploads_responses :=
           UploadsItems [upload ''v1'', upload ''v2'', upload ''v3''] ## sconst UploadsNoChannel,
         videos_responses := sconst (VideosDuration ''PT10M'')\<rparr>))
     = Some ({KStr ''v1'', KStr ''v2'', KStr ''v3''}, [])"
  by (simp add: cycle_eval post_comment_eval parse_duration_def match_here_def is_digit_def
      py_int_def insert_commute)

theorem cycle_three_uploads_one_seen_witness:
  "seen_and_posts (check_for_new_videos (default_config ''UC'')
      \<lparr>last_seen_videos = {KStr ''v2''}, last_check_time = JNull\<rparr>
      ((fresh_world (HttpError 403 ## sconst Posted))\<lparr>uploads_responses :=
           UploadsItems [upload ''v1'', upload ''v2'', upload ''v3''] ## sconst UploadsNoChannel\<rparr>))
     = Some ({KStr ''v1'', KStr ''v2'', KStr ''v3''}, [''v1'', ''v3''])"
  using cycle_three_uploads_one_seen[of "default_config ''UC''"
      "(fresh_world (HttpError 403 ## sconst Posted))\<lparr>uploads_responses :=
           UploadsItems [upload ''v1'', upload ''v2'', upload ''v3''] ## sconst UploadsNoChannel\<rparr>"
      "upload ''v1''" "upload ''v2''" "upload ''v3''"
      "\<lparr>last_seen_videos = {KStr ''v2''}, last_check_time = JNull\<rparr>"]
  by (auto simp: cycle_eval post_comment_eval sleeps_legal_def passes_filter_def unseen_def
      insert_commute)

end
